theory Spec2Isabelle
  imports Complex_Main
begin

section \<open>Typing-speed trainer: the sentence display and the typing area of UI.py\<close>

text \<open>
  The two classes of UI.py are embedded as records and their methods as functions that take
  the object and return it updated. A Python exception is a value \<open>Inl e\<close>. Python strings are
  lists of characters whose code points lie below 256; Python floats are the exact rationals
  (the comparison \<open>accuracy_score == 100\<close> gives the same answer in both for every sentence
  shorter than \<open>2 ^ 53\<close> characters). The labels hold the text the widgets show.
\<close>

subsection \<open>Python values\<close>

datatype error =
    ZeroDivisionError   \<comment> \<open>raised by \<open>/\<close> on a zero divisor\<close>
  | IndexError          \<comment> \<open>raised by \<open>random.choice\<close> on an empty sequence\<close>
  | EmptyCorpus         \<comment> \<open>named by the specification only; no path of UI.py raises it\<close>

definition truediv :: "rat \<Rightarrow> rat \<Rightarrow> error + rat" where
  \<comment> \<open>Python's \<open>a / b\<close>.\<close>
  "truediv a b = (if b = 0 then Inl ZeroDivisionError else Inr (a / b))"

definition digit_char :: "nat \<Rightarrow> char" where
  "digit_char d = ''0123456789'' ! d"

function show_nat :: "nat \<Rightarrow> string" where
  "show_nat n = (if n < 10 then [digit_char n] else show_nat (n div 10) @ [digit_char (n mod 10)])"
  by pat_completeness auto
termination
  by (relation "measure id") auto

declare show_nat.simps [simp del]

definition show_int :: "int \<Rightarrow> string" where
  \<comment> \<open>\<open>f"{i}"\<close> for an int.\<close>
  "show_int i = (if i < 0 then ''-'' @ show_nat (nat (- i)) else show_nat (nat i))"

definition round_half_even :: "rat \<Rightarrow> int" where
  "round_half_even x =
     (let f = \<lfloor>x\<rfloor>; d = x - of_int f
      in if d < 1 / 2 then f else if 1 / 2 < d then f + 1 else if even f then f else f + 1)"

definition fmt2 :: "rat \<Rightarrow> string" where
  \<comment> \<open>\<open>f"{x:.2f}"\<close>: two digits after the point, rounded to nearest, ties to even.\<close>
  "fmt2 x =
     (let n = nat (round_half_even (\<bar>x\<bar> * 100))
      in (if x < 0 then ''-'' else '''') @ show_nat (n div 100) @ ''.''
           @ [digit_char (n mod 100 div 10), digit_char (n mod 10)])"

definition isspace :: "char \<Rightarrow> bool" where
  \<comment> \<open>Python's whitespace among the code points below 256.\<close>
  "isspace c = ((of_char c :: nat) \<in> {9, 10, 11, 12, 13, 28, 29, 30, 31, 32, 133, 160})"

fun split_from :: "string \<Rightarrow> string \<Rightarrow> string list" where
  \<comment> \<open>\<open>str.split()\<close> with the word read so far (reversed) as first argument.\<close>
  "split_from word [] = (if word = [] then [] else [rev word])"
| "split_from word (c # cs) =
     (if isspace c then (if word = [] then split_from [] cs else rev word # split_from [] cs)
      else split_from (c # word) cs)"

definition split :: "string \<Rightarrow> string list" where
  \<comment> \<open>\<open>s.split()\<close>: the maximal runs of characters that are not whitespace.\<close>
  "split s = split_from [] s"

definition enumerate_str :: "string \<Rightarrow> (nat \<times> char) list" where
  "enumerate_str s = zip [0 ..< length s] s"

subsection \<open>SentenceDisplay\<close>

record sentence_display =
  sentence_list :: "string list"   \<comment> \<open>\<open>data.sentences\<close>; the module is not part of the sources\<close>
  sentence_label :: string         \<comment> \<open>the text of the label\<close>

definition get_random_sentence :: "nat \<Rightarrow> sentence_display \<Rightarrow> error + string" where
  \<comment> \<open>\<open>random.choice\<close> raises on an empty sequence and otherwise returns the element at
      the index the generator draws below the length; \<open>r\<close> is the generator's output.\<close>
  "get_random_sentence r d =
     (if sentence_list d = [] then Inl IndexError
      else Inr (sentence_list d ! (r mod length (sentence_list d))))"

definition display_sentence :: "nat \<Rightarrow> sentence_display \<Rightarrow> error + sentence_display" where
  "display_sentence r d =
     (case get_random_sentence r d of
        Inl e \<Rightarrow> Inl e
      | Inr sentence \<Rightarrow> Inr (d\<lparr>sentence_label := sentence\<rparr>))"

definition get_sentence :: "sentence_display \<Rightarrow> string" where
  "get_sentence d = sentence_label d"

definition new_sentence_display :: "string list \<Rightarrow> nat \<Rightarrow> error + sentence_display" where
  \<comment> \<open>\<open>SentenceDisplay.__init__\<close>\<close>
  "new_sentence_display sentences r =
     display_sentence r \<lparr>sentence_list = sentences, sentence_label = []\<rparr>"

subsection \<open>TypingArea\<close>

text \<open>
  Besides the attributes of the class, the record holds the part of Tk the methods talk to:
  the callbacks scheduled with \<open>after\<close> and not yet run (identifier and due time in
  milliseconds, oldest first), the next identifier, and the clock.
\<close>

record typing_area =
  display :: sentence_display      \<comment> \<open>\<open>self.sentence_display\<close>\<close>
  timer_running :: bool
  time_elapsed :: int
  timer_id :: "nat option"
  input_area :: string             \<comment> \<open>the text of the entry\<close>
  accuracy_label :: string
  timer_label :: string
  wpm_label :: string
  pending :: "(nat \<times> nat) list"
  next_after_id :: nat
  clock :: nat

definition new_typing_area :: "sentence_display \<Rightarrow> typing_area" where
  \<comment> \<open>\<open>TypingArea.__init__\<close>\<close>
  "new_typing_area d =
     \<lparr>display = d, timer_running = False, time_elapsed = 0, timer_id = None,
      input_area = [], accuracy_label = ''Accuracy: 100%'', timer_label = ''Time: 0s'',
      wpm_label = ''WPM: 0.00'', pending = [], next_after_id = 0, clock = 0\<rparr>"

definition after :: "nat \<Rightarrow> typing_area \<Rightarrow> nat \<times> typing_area" where
  \<comment> \<open>\<open>self.after(ms, self.update_timer)\<close>: a fresh identifier, due \<open>ms\<close> from now.\<close>
  "after ms s =
     (next_after_id s,
      s\<lparr>pending := pending s @ [(next_after_id s, clock s + ms)],
        next_after_id := next_after_id s + 1\<rparr>)"

definition after_cancel :: "nat \<Rightarrow> typing_area \<Rightarrow> typing_area" where
  \<comment> \<open>\<open>self.after_cancel(id)\<close>; an identifier that is not pending is ignored.\<close>
  "after_cancel i s = s\<lparr>pending := filter (\<lambda>p. fst p \<noteq> i) (pending s)\<rparr>"

definition calculate_wpm :: "string \<Rightarrow> typing_area \<Rightarrow> error + typing_area" where
  "calculate_wpm input_text s =
     (if 0 < time_elapsed s then
        (case truediv (of_int (time_elapsed s)) 60 of
           Inl e \<Rightarrow> Inl e
         | Inr time_minutes \<Rightarrow>
             (case truediv (of_nat (length (split input_text))) time_minutes of
                Inl e \<Rightarrow> Inl e
              | Inr wpm \<Rightarrow> Inr (s\<lparr>wpm_label := ''WPM: '' @ fmt2 wpm\<rparr>)))
      else Inr (s\<lparr>wpm_label := ''WPM: 0.00''\<rparr>))"

definition update_timer :: "typing_area \<Rightarrow> error + typing_area" where
  "update_timer s =
     (if timer_running s then
        (let s1 = s\<lparr>time_elapsed := time_elapsed s + 1\<rparr>;
             s2 = s1\<lparr>timer_label := ''Time Elapsed: '' @ show_int (time_elapsed s1) @ ''s''\<rparr>
         in case calculate_wpm (input_area s2) s2 of
              Inl e \<Rightarrow> Inl e
            | Inr s3 \<Rightarrow> (case after 1000 s3 of (i, s4) \<Rightarrow> Inr (s4\<lparr>timer_id := Some i\<rparr>)))
      else Inr s)"

definition start_timer :: "typing_area \<Rightarrow> error + typing_area" where
  "start_timer s =
     (if \<not> timer_running s then update_timer (s\<lparr>timer_running := True\<rparr>) else Inr s)"

definition stop_timer :: "typing_area \<Rightarrow> typing_area" where
  "stop_timer s =
     (let s1 = (if timer_running s then s\<lparr>timer_running := False\<rparr> else s)
      in case timer_id s1 of Some i \<Rightarrow> after_cancel i s1 | None \<Rightarrow> s1)"

definition reset_timer :: "typing_area \<Rightarrow> typing_area" where
  "reset_timer s = s\<lparr>timer_running := False, time_elapsed := 0, timer_label := ''Time: 0s''\<rparr>"

definition accuracy_score :: "nat \<Rightarrow> string \<Rightarrow> error + rat" where
  \<comment> \<open>\<open>(correct_chars / len(sentence)) * 100 if sentence else 0\<close>\<close>
  "accuracy_score correct_chars sentence =
     (if sentence \<noteq> [] then
        (case truediv (of_nat correct_chars) (of_nat (length sentence)) of
           Inl e \<Rightarrow> Inl e
         | Inr q \<Rightarrow> Inr (q * 100))
      else Inr 0)"

fun check_loop ::
  "string \<Rightarrow> string \<Rightarrow> (nat \<times> char) list \<Rightarrow> nat \<Rightarrow> typing_area \<Rightarrow> error + nat \<times> typing_area"
where
  \<comment> \<open>The \<open>for\<close> loop of \<open>check_accuracy\<close> over the pairs of \<open>enumerate(input_text)\<close> still
      to visit; the score, the label and the test for 100 are inside its body.\<close>
  "check_loop input_text sentence [] correct_chars s = Inr (correct_chars, s)"
| "check_loop input_text sentence ((i, c) # rest) correct_chars s =
     (let correct_chars' =
            (if i < length sentence \<and> c = sentence ! i then correct_chars + 1 else correct_chars)
      in case accuracy_score correct_chars' sentence of
           Inl e \<Rightarrow> Inl e
         | Inr score \<Rightarrow>
             (let s1 = s\<lparr>accuracy_label := ''Accuracy: '' @ fmt2 score @ ''%''\<rparr>
              in if score = 100 then
                   (case calculate_wpm input_text (stop_timer s1) of
                      Inl e \<Rightarrow> Inl e
                    | Inr s2 \<Rightarrow> check_loop input_text sentence rest correct_chars' s2)
                 else check_loop input_text sentence rest correct_chars' s1))"

definition check_accuracy :: "typing_area \<Rightarrow> error + typing_area" where
  "check_accuracy s =
     (let input_text = input_area s;
          sentence = get_sentence (display s)
      in case check_loop input_text sentence (enumerate_str input_text) 0 s of
           Inl e \<Rightarrow> Inl e
         | Inr (correct_chars, s1) \<Rightarrow> calculate_wpm input_text s1)"

definition restart_program :: "nat \<Rightarrow> typing_area \<Rightarrow> error + typing_area" where
  \<comment> \<open>\<open>r\<close> is the draw of the generator for the new sentence. Binding the key handler again
      and \<open>focus_set\<close> change nothing here: a focus event they cause is delivered later, as a
      call of \<open>start_timer\<close> of its own.\<close>
  "restart_program r s =
     (let s1 = reset_timer s;
          s2 = s1\<lparr>input_area := []\<rparr>
      in case display_sentence r (display s2) of
           Inl e \<Rightarrow> Inl e
         | Inr d \<Rightarrow>
             start_timer
               (s2\<lparr>display := d, accuracy_label := ''Accuracy: 100%'', wpm_label := ''WPM: 0.00''\<rparr>))"

subsection \<open>Events delivered by Tk\<close>

definition key_release :: "string \<Rightarrow> typing_area \<Rightarrow> error + typing_area" where
  \<comment> \<open>The entry holds the edited text when the handler of the key release runs.\<close>
  "key_release text s = check_accuracy (s\<lparr>input_area := text\<rparr>)"

definition fire :: "nat \<Rightarrow> typing_area \<Rightarrow> error + typing_area" where
  \<comment> \<open>Tk runs the pending callback \<open>i\<close> at its due time; a cancelled one never runs.\<close>
  "fire i s =
     (case map_of (pending s) i of
        None \<Rightarrow> Inr s
      | Some due \<Rightarrow>
          update_timer (s\<lparr>pending := filter (\<lambda>p. fst p \<noteq> i) (pending s),
                          clock := max (clock s) due\<rparr>))"

fun ticks :: "nat \<Rightarrow> typing_area \<Rightarrow> error + typing_area" where
  \<comment> \<open>\<open>update_timer\<close> called \<open>n\<close> times in a row, however the calls come about.\<close>
  "ticks 0 s = Inr s"
| "ticks (Suc n) s = (case update_timer s of Inl e \<Rightarrow> Inl e | Inr s' \<Rightarrow> ticks n s')"

definition and_then :: "error + 'a \<Rightarrow> ('a \<Rightarrow> error + 'b) \<Rightarrow> error + 'b" where
  \<comment> \<open>One handler after another: an exception ends the run.\<close>
  "and_then r f = (case r of Inl e \<Rightarrow> Inl e | Inr s \<Rightarrow> f s)"

fun deliver :: "nat list \<Rightarrow> typing_area \<Rightarrow> error + typing_area" where
  \<comment> \<open>Tk runs the callbacks with these identifiers, in this order.\<close>
  "deliver [] s = Inr s"
| "deliver (i # is) s = and_then (fire i s) (deliver is)"


subsection \<open>What the specification counts\<close>

fun matched :: "string \<Rightarrow> string \<Rightarrow> nat" where
  \<comment> \<open>The positions, up to the shorter length, where the input and the target agree.\<close>
  "matched [] target = 0"
| "matched (a # input) [] = 0"
| "matched (a # input) (b # target) = (if a = b then 1 else 0) + matched input target"


subsection \<open>Auxiliary functions of the proofs\<close>

definition count_matches :: "string \<Rightarrow> (nat \<times> char) list \<Rightarrow> nat" where
  \<comment> \<open>How often the loop of \<open>check_accuracy\<close> increments \<open>correct_chars\<close> on these pairs.\<close>
  "count_matches sentence ps =
     length (filter (\<lambda>p. fst p < length sentence \<and> snd p = sentence ! fst p) ps)"

fun reaches_100 :: "string \<Rightarrow> (nat \<times> char) list \<Rightarrow> nat \<Rightarrow> bool" where
  \<comment> \<open>Whether some iteration over these pairs, entered with \<open>n\<close> correct characters, finds
      the score equal to 100.\<close>
  "reaches_100 sentence [] n = False"
| "reaches_100 sentence (p # ps) n =
     (let n' = n + count_matches sentence [p]
      in accuracy_score n' sentence = Inr 100 \<or> reaches_100 sentence ps n')"

definition wpm_text :: "int \<Rightarrow> string \<Rightarrow> string" where
  \<comment> \<open>The text \<open>calculate_wpm\<close> writes after \<open>t\<close> seconds.\<close>
  "wpm_text t input_text =
     (if 0 < t then ''WPM: '' @ fmt2 (of_nat (length (split input_text)) / (of_int t / 60))
      else ''WPM: 0.00'')"

definition accuracy_text :: "nat \<Rightarrow> string \<Rightarrow> string" where
  \<comment> \<open>The text the loop writes when \<open>n\<close> characters are correct.\<close>
  "accuracy_text n sentence =
     ''Accuracy: ''
       @ fmt2 (if sentence = [] then 0 else of_nat n / of_nat (length sentence) * 100) @ ''%''"

definition completed :: "string \<Rightarrow> typing_area \<Rightarrow> typing_area" where
  \<comment> \<open>\<open>stop_timer\<close> followed by \<open>calculate_wpm\<close>.\<close>
  "completed input_text s =
     s\<lparr>timer_running := False,
       pending := filter (\<lambda>p. Some (fst p) \<noteq> timer_id s) (pending s),
       wpm_label := wpm_text (time_elapsed s) input_text\<rparr>"

definition step_state :: "string \<Rightarrow> string \<Rightarrow> nat \<Rightarrow> typing_area \<Rightarrow> typing_area" where
  \<comment> \<open>The object after one iteration that ends with \<open>n\<close> correct characters.\<close>
  "step_state t sentence n s =
     (let s1 = s\<lparr>accuracy_label := accuracy_text n sentence\<rparr>
      in if accuracy_score n sentence = Inr 100 then completed t s1 else s1)"

fun loop_state ::
  "string \<Rightarrow> string \<Rightarrow> (nat \<times> char) list \<Rightarrow> nat \<Rightarrow> typing_area \<Rightarrow> typing_area"
where
  "loop_state t sentence [] n s = s"
| "loop_state t sentence (p # ps) n s =
     loop_state t sentence ps (n + count_matches sentence [p])
       (step_state t sentence (n + count_matches sentence [p]) s)"


definition idle :: typing_area where
  \<comment> \<open>A session as the program builds it at startup, on the one sentence \<open>abc\<close>.\<close>
  "idle = new_typing_area \<lparr>sentence_list = [''abc''], sentence_label = ''abc''\<rparr>"

definition running :: typing_area where
  \<comment> \<open>\<open>idle\<close> after the entry got the focus: what \<open>start_timer\<close> returns on it.\<close>
  "running =
     idle\<lparr>timer_running := True, time_elapsed := 1, timer_id := Some 0,
          timer_label := ''Time Elapsed: 1s'', pending := [(0, 1000)], next_after_id := 1\<rparr>"

definition blank :: typing_area where
  \<comment> \<open>A running session whose sentence is the empty string, one second after its start.\<close>
  "blank = running\<lparr>display := \<lparr>sentence_list = [[]], sentence_label = []\<rparr>\<rparr>"

definition restarted :: typing_area where
  \<comment> \<open>\<open>running\<close> after the restart button: what \<open>restart_program\<close> returns on it when the
      generator draws the sentence \<open>abc\<close> again.\<close>
  "restarted =
     running\<lparr>timer_id := Some 1, pending := [(0, 1000), (1, 1000)], next_after_id := 2\<rparr>"

section \<open>Properties\<close>

subsection \<open>The loop of \<open>check_accuracy\<close>, step by step\<close>

lemma calculate_wpm_eq:
  "calculate_wpm t s = Inr (s\<lparr>wpm_label := wpm_text (time_elapsed s) t\<rparr>)"
  by (simp add: calculate_wpm_def truediv_def wpm_text_def)

lemma stop_timer_eq:
  "stop_timer s =
     s\<lparr>timer_running := False,
       pending := filter (\<lambda>p. Some (fst p) \<noteq> timer_id s) (pending s)\<rparr>"
  by (cases s) (auto simp: stop_timer_def after_cancel_def Let_def split: option.splits)

lemma accuracy_score_eq:
  "accuracy_score n sentence =
     Inr (if sentence = [] then 0 else of_nat n / of_nat (length sentence) * 100)"
  by (simp add: accuracy_score_def truediv_def)



lemma count_matches_Cons:
  "count_matches sentence (p # ps) = count_matches sentence [p] + count_matches sentence ps"
  by (simp add: count_matches_def)

lemma count_matches_Nil: "count_matches sentence [] = 0"
  by (simp add: count_matches_def)

lemma check_loop_Cons:
  "check_loop t sentence (p # ps) n s =
     check_loop t sentence ps (n + count_matches sentence [p])
       (step_state t sentence (n + count_matches sentence [p]) s)"
proof -
  obtain i c where p: "p = (i, c)" by (cases p)
  have n': "(if i < length sentence \<and> c = sentence ! i then n + 1 else n)
              = n + count_matches sentence [p]"
    by (simp add: p count_matches_def)
  show ?thesis
    unfolding p check_loop.simps n'[unfolded p] Let_def
    by (simp add: accuracy_score_eq calculate_wpm_eq stop_timer_eq step_state_def
        completed_def accuracy_text_def)
qed

lemma check_loop_eq:
  "check_loop t sentence ps n s =
     Inr (n + count_matches sentence ps, loop_state t sentence ps n s)"
proof (induction ps arbitrary: n s)
  case Nil
  show ?case by (simp add: count_matches_Nil)
next
  case (Cons p ps)
  show ?case
    by (simp only: check_loop_Cons Cons.IH loop_state.simps count_matches_Cons [of _ p ps] add.assoc)
qed

lemma step_state_frame:
  "time_elapsed (step_state t sentence n s) = time_elapsed s"
  "display (step_state t sentence n s) = display s"
  "input_area (step_state t sentence n s) = input_area s"
  "timer_id (step_state t sentence n s) = timer_id s"
  "timer_label (step_state t sentence n s) = timer_label s"
  "next_after_id (step_state t sentence n s) = next_after_id s"
  "clock (step_state t sentence n s) = clock s"
  "accuracy_label (step_state t sentence n s) = accuracy_text n sentence"
  by (simp_all add: step_state_def completed_def Let_def)

lemma step_state_stop:
  "timer_running (step_state t sentence n s) =
     (timer_running s \<and> accuracy_score n sentence \<noteq> Inr 100)"
  "pending (step_state t sentence n s) =
     (if accuracy_score n sentence = Inr 100
      then filter (\<lambda>p. Some (fst p) \<noteq> timer_id s) (pending s) else pending s)"
  "wpm_label (step_state t sentence n s) =
     (if accuracy_score n sentence = Inr 100
      then wpm_text (time_elapsed s) t else wpm_label s)"
  by (simp_all add: step_state_def completed_def Let_def)

lemma loop_state_frame:
  "time_elapsed (loop_state t sentence ps n s) = time_elapsed s"
  "display (loop_state t sentence ps n s) = display s"
  "input_area (loop_state t sentence ps n s) = input_area s"
  "timer_id (loop_state t sentence ps n s) = timer_id s"
  "timer_label (loop_state t sentence ps n s) = timer_label s"
  "next_after_id (loop_state t sentence ps n s) = next_after_id s"
  "clock (loop_state t sentence ps n s) = clock s"
  by (induction ps arbitrary: n s; simp add: step_state_frame)+

lemma loop_state_accuracy_label:
  "accuracy_label (loop_state t sentence ps n s) =
     (if ps = [] then accuracy_label s
      else accuracy_text (n + count_matches sentence ps) sentence)"
proof (induction ps arbitrary: n s)
  case Nil
  show ?case by simp
next
  case (Cons p ps)
  show ?case
    by (cases "ps = []")
       (simp_all add: Cons.IH step_state_frame count_matches_Cons [of _ p ps] count_matches_Nil add.assoc)
qed

lemma loop_state_timer_running:
  "timer_running (loop_state t sentence ps n s) =
     (timer_running s \<and> \<not> reaches_100 sentence ps n)"
  by (induction ps arbitrary: n s) (auto simp: step_state_stop Let_def)

lemma loop_state_pending:
  "pending (loop_state t sentence ps n s) =
     (if reaches_100 sentence ps n
      then filter (\<lambda>p. Some (fst p) \<noteq> timer_id s) (pending s) else pending s)"
  by (induction ps arbitrary: n s)
     (auto simp: step_state_stop step_state_frame Let_def)

lemma loop_state_wpm_label:
  "wpm_label (loop_state t sentence ps n s) =
     (if reaches_100 sentence ps n then wpm_text (time_elapsed s) t else wpm_label s)"
  by (induction ps arbitrary: n s)
     (auto simp: step_state_stop step_state_frame Let_def)


subsection \<open>What the loop counts\<close>

lemma matched_le: "matched input target \<le> length target"
  by (induction input target rule: matched.induct) auto

lemma matched_Nil2: "matched input [] = 0"
  by (cases input) auto

lemma count_matches_pair:
  "count_matches sentence ((i, c) # ps) =
     (if i < length sentence \<and> c = sentence ! i then 1 else 0) + count_matches sentence ps"
  by (simp add: count_matches_def)

lemma count_matches_zip:
  "count_matches sentence (zip [k ..< k + length xs] xs) = matched xs (drop k sentence)"
proof (induction xs arbitrary: k)
  case Nil
  show ?case by (simp add: count_matches_Nil)
next
  case (Cons x xs)
  have upt: "[k ..< k + length (x # xs)] = k # [Suc k ..< Suc k + length xs]"
    by (subst upt_rec) simp
  have rest: "count_matches sentence (zip [Suc k ..< Suc k + length xs] xs)
                = matched xs (drop (Suc k) sentence)"
    by (rule Cons.IH)
  show ?case
  proof (cases "k < length sentence")
    case True
    then have d: "drop k sentence = sentence ! k # drop (Suc k) sentence"
      by (simp add: Cons_nth_drop_Suc)
    show ?thesis
      unfolding upt zip_Cons_Cons count_matches_pair rest d
      using True by simp
  next
    case False
    then have d: "drop k sentence = []" "drop (Suc k) sentence = []" by simp_all
    show ?thesis
      unfolding upt zip_Cons_Cons count_matches_pair rest d
      using False by (simp add: matched_Nil2)
  qed
qed

lemma count_matches_enumerate:
  "count_matches sentence (enumerate_str input_text) = matched input_text sentence"
  using count_matches_zip [of sentence 0 input_text] by (simp add: enumerate_str_def)

lemma accuracy_score_100:
  "accuracy_score n sentence = Inr 100 \<longleftrightarrow> sentence \<noteq> [] \<and> n = length sentence"
  by (auto simp: accuracy_score_eq field_simps)

lemma reaches_100_iff:
  "n + count_matches sentence ps \<le> length sentence \<Longrightarrow>
   reaches_100 sentence ps n \<longleftrightarrow>
     sentence \<noteq> [] \<and> ps \<noteq> [] \<and> n + count_matches sentence ps = length sentence"
proof (induction ps arbitrary: n)
  case Nil
  show ?case by simp
next
  case (Cons p ps)
  let ?n = "n + count_matches sentence [p]"
  have bound: "?n + count_matches sentence ps \<le> length sentence"
    using Cons.prems by (simp add: count_matches_Cons [of _ p ps])
  have total: "n + count_matches sentence (p # ps) = ?n + count_matches sentence ps"
    by (simp add: count_matches_Cons [of _ p ps])
  have "reaches_100 sentence (p # ps) n \<longleftrightarrow>
          (sentence \<noteq> [] \<and> ?n = length sentence) \<or> reaches_100 sentence ps ?n"
    by (simp add: Let_def accuracy_score_100)
  also have "\<dots> \<longleftrightarrow> (sentence \<noteq> [] \<and> ?n = length sentence) \<or>
          (sentence \<noteq> [] \<and> ps \<noteq> [] \<and> ?n + count_matches sentence ps = length sentence)"
    by (simp only: Cons.IH [OF bound])
  also have "\<dots> \<longleftrightarrow> sentence \<noteq> [] \<and> ?n + count_matches sentence ps = length sentence"
    using bound by (cases "ps = []") (auto simp: count_matches_Nil)
  finally show ?case by (simp only: total) simp
qed

lemma enumerate_str_Nil: "enumerate_str t = [] \<longleftrightarrow> t = []"
  by (simp add: enumerate_str_def)

lemma reaches_100_enumerate:
  "reaches_100 sentence (enumerate_str input_text) 0 \<longleftrightarrow>
     sentence \<noteq> [] \<and> matched input_text sentence = length sentence"
proof -
  have "0 + count_matches sentence (enumerate_str input_text) \<le> length sentence"
    by (simp add: count_matches_enumerate matched_le)
  from reaches_100_iff [OF this] show ?thesis
    by (cases input_text) (auto simp: count_matches_enumerate enumerate_str_Nil)
qed

lemma check_loop_matched:
  "\<exists>s'. check_loop input_text sentence (enumerate_str input_text) 0 s
          = Inr (matched input_text sentence, s')"
  by (simp add: check_loop_eq count_matches_enumerate)

lemma matched_self: "matched t t = length t"
  by (induction t) auto


subsection \<open>The tokens of \<open>split\<close>\<close>





subsection \<open>\<open>check_accuracy\<close> as a whole\<close>


lemma check_accuracy_eq:
  "check_accuracy s =
     Inr ((loop_state (input_area s) (get_sentence (display s))
             (enumerate_str (input_area s)) 0 s)
          \<lparr>wpm_label := wpm_text (time_elapsed s) (input_area s)\<rparr>)"
  by (simp add: check_accuracy_def check_loop_eq calculate_wpm_eq loop_state_frame Let_def)

lemma check_accuracy_frame:
  assumes "check_accuracy s = Inr s'"
  shows "time_elapsed s' = time_elapsed s" "display s' = display s"
    "input_area s' = input_area s" "timer_id s' = timer_id s"
    "timer_label s' = timer_label s" "next_after_id s' = next_after_id s"
    "clock s' = clock s"
    "wpm_label s' = wpm_text (time_elapsed s) (input_area s)"
  using assms by (auto simp: check_accuracy_eq loop_state_frame)

lemma check_accuracy_label:
  assumes "check_accuracy s = Inr s'"
  shows "accuracy_label s' =
     (if input_area s = [] then accuracy_label s
      else accuracy_text (matched (input_area s) (get_sentence (display s)))
             (get_sentence (display s)))"
  using assms
  by (auto simp: check_accuracy_eq loop_state_accuracy_label enumerate_str_Nil
      count_matches_enumerate)

lemma check_accuracy_stop:
  assumes "check_accuracy s = Inr s'"
  shows "timer_running s' =
           (timer_running s \<and>
            accuracy_score (matched (input_area s) (get_sentence (display s)))
              (get_sentence (display s)) \<noteq> Inr 100)"
    and "pending s' =
           (if accuracy_score (matched (input_area s) (get_sentence (display s)))
                 (get_sentence (display s)) = Inr 100
            then filter (\<lambda>p. Some (fst p) \<noteq> timer_id s) (pending s) else pending s)"
  using assms
  by (auto simp: check_accuracy_eq loop_state_timer_running loop_state_pending
      reaches_100_enumerate accuracy_score_100)

subsection \<open>Ticks\<close>

lemma update_timer_running:
  "timer_running s \<Longrightarrow>
   update_timer s =
     Inr (s\<lparr>time_elapsed := time_elapsed s + 1,
            timer_label := ''Time Elapsed: '' @ show_int (time_elapsed s + 1) @ ''s'',
            wpm_label := wpm_text (time_elapsed s + 1) (input_area s),
            pending := pending s @ [(next_after_id s, clock s + 1000)],
            next_after_id := next_after_id s + 1,
            timer_id := Some (next_after_id s)\<rparr>)"
  by (simp add: update_timer_def calculate_wpm_eq after_def Let_def)

lemma update_timer_stopped: "\<not> timer_running s \<Longrightarrow> update_timer s = Inr s"
  by (simp add: update_timer_def)

lemma ticks_stopped: "\<not> timer_running s \<Longrightarrow> ticks n s = Inr s"
  by (induction n) (simp_all add: update_timer_stopped)

lemma fire_stopped:
  "\<not> timer_running s \<Longrightarrow>
   \<exists>s'. fire i s = Inr s' \<and> \<not> timer_running s' \<and> time_elapsed s' = time_elapsed s"
  by (auto simp: fire_def update_timer_stopped split: option.splits)

lemma deliver_stopped:
  "\<not> timer_running s \<Longrightarrow>
   \<exists>s'. deliver ids s = Inr s' \<and> \<not> timer_running s' \<and> time_elapsed s' = time_elapsed s"
proof (induction ids arbitrary: s)
  case Nil
  then show ?case by simp
next
  case (Cons i ids)
  from fire_stopped [OF Cons.prems, of i] obtain s1 where
    s1: "fire i s = Inr s1" "\<not> timer_running s1" "time_elapsed s1 = time_elapsed s"
    by blast
  from Cons.IH [OF s1(2)] s1 show ?case
    by (auto simp: and_then_def)
qed


subsection \<open>Evaluating the formats\<close>

lemma show_nat_digit: "n < 10 \<Longrightarrow> show_nat n = [digit_char n]"
  by (simp add: show_nat.simps)

lemma show_nat_more: "10 \<le> n \<Longrightarrow> show_nat n = show_nat (n div 10) @ [digit_char (n mod 10)]"
  by (subst show_nat.simps) simp

lemmas fmt2_eval =
  fmt2_def round_half_even_def show_nat_digit show_nat_more digit_char_def Let_def

lemma fmt2_0: "fmt2 0 = ''0.00''"
  by (simp add: fmt2_eval)



lemma fmt2_100: "fmt2 100 = ''100.00''"
  by (simp add: fmt2_eval)

lemma floor_third: "\<lfloor>(10000::rat) / 3\<rfloor> = 3333"
  by (rule floor_unique) simp_all

lemma fmt2_third: "fmt2 (100 / 3) = ''33.33''"
  by (simp add: fmt2_eval floor_third)

lemma show_int_1: "show_int 1 = ''1''"
  by (simp add: show_int_def show_nat_digit digit_char_def)

lemma show_int_2: "show_int 2 = ''2''"
  by (simp add: show_int_def show_nat_digit digit_char_def)

subsection \<open>Starting the timer\<close>

lemma start_timer_eq:
  "start_timer s =
     (if timer_running s then Inr s
      else Inr (s\<lparr>timer_running := True,
                  time_elapsed := time_elapsed s + 1,
                  timer_label := ''Time Elapsed: '' @ show_int (time_elapsed s + 1) @ ''s'',
                  wpm_label := wpm_text (time_elapsed s + 1) (input_area s),
                  pending := pending s @ [(next_after_id s, clock s + 1000)],
                  next_after_id := next_after_id s + 1,
                  timer_id := Some (next_after_id s)\<rparr>))"
  by (simp add: start_timer_def update_timer_running)

lemma wpm_text_empty: "wpm_text t [] = ''WPM: 0.00''"
  by (simp add: wpm_text_def split_def fmt2_0)

lemma start_timer_idle: "start_timer idle = Inr running"
  by (simp add: start_timer_eq idle_def running_def new_typing_area_def wpm_text_empty show_int_1)


subsection \<open>A key release\<close>

lemma key_release_eq:
  "key_release text s = check_accuracy (s\<lparr>input_area := text\<rparr>)"
  by (simp add: key_release_def)

lemma key_release_total: "\<exists>s'. key_release text s = Inr s'"
  by (simp add: key_release_def check_accuracy_eq)

lemma key_release_fields:
  assumes "key_release text s = Inr s'"
  shows "time_elapsed s' = time_elapsed s" "display s' = display s" "input_area s' = text"
    "timer_id s' = timer_id s" "timer_label s' = timer_label s"
    "next_after_id s' = next_after_id s" "clock s' = clock s"
    "wpm_label s' = wpm_text (time_elapsed s) text"
    "accuracy_label s' =
       (if text = [] then accuracy_label s
        else accuracy_text (matched text (get_sentence (display s))) (get_sentence (display s)))"
    "timer_running s' =
       (timer_running s \<and>
        accuracy_score (matched text (get_sentence (display s))) (get_sentence (display s))
          \<noteq> Inr 100)"
    "pending s' =
       (if accuracy_score (matched text (get_sentence (display s))) (get_sentence (display s))
             = Inr 100
        then filter (\<lambda>p. Some (fst p) \<noteq> timer_id s) (pending s) else pending s)"
  using check_accuracy_frame [OF assms [unfolded key_release_def]]
    check_accuracy_label [OF assms [unfolded key_release_def]]
    check_accuracy_stop [OF assms [unfolded key_release_def]]
  by simp_all




lemma blank_fields:
  "get_sentence (display blank) = []" "timer_running blank" "time_elapsed blank = 1"
  "input_area blank = []" "wpm_label blank = ''WPM: 0.00''"
  by (simp_all add: blank_def running_def idle_def new_typing_area_def get_sentence_def)

lemma running_fields:
  "get_sentence (display running) = ''abc''" "timer_running running" "time_elapsed running = 1"
  "input_area running = []" "wpm_label running = ''WPM: 0.00''"
  "accuracy_label running = ''Accuracy: 100%''" "timer_id running = Some 0"
  "pending running = [(0, 1000)]" "next_after_id running = 1" "clock running = 0"
  by (simp_all add: running_def idle_def new_typing_area_def get_sentence_def)

lemma idle_fields:
  "get_sentence (display idle) = ''abc''" "\<not> timer_running idle" "time_elapsed idle = 0"
  "input_area idle = []" "wpm_label idle = ''WPM: 0.00''"
  "accuracy_label idle = ''Accuracy: 100%''" "timer_id idle = None"
  "pending idle = []" "next_after_id idle = 0" "clock idle = 0"
  by (simp_all add: idle_def new_typing_area_def get_sentence_def)

lemma accuracy_text_1_3: "accuracy_text (Suc 0) ''abc'' = ''Accuracy: 33.33%''"
  by (simp add: accuracy_text_def fmt2_third)

lemma key_release_accuracy_label:
  "map_sum id accuracy_label (key_release text s) =
     Inr (if text = [] then accuracy_label s
          else accuracy_text (matched text (get_sentence (display s))) (get_sentence (display s)))"
proof -
  from key_release_total obtain s' where s': "key_release text s = Inr s'" by blast
  show ?thesis using key_release_fields(9) [OF s'] by (simp add: s')
qed

lemma matched_prefix:
  assumes "k \<le> length input" "length input \<le> length target"
    and "\<And>i. i < length input \<Longrightarrow> (input ! i = target ! i) = (i < k)"
  shows "matched input target = k"
  using assms
proof (induction input target arbitrary: k rule: matched.induct)
  case (1 target)
  then show ?case by simp
next
  case (2 a input)
  then show ?case by simp
next
  case (3 a input b target)
  show ?case
  proof (cases k)
    case 0
    have "matched input target = 0"
    proof (rule "3.IH")
      show "0 \<le> length input" by simp
      show "length input \<le> length target" using "3.prems"(2) by simp
      fix i assume "i < length input"
      then show "(input ! i = target ! i) = (i < 0)"
        using "3.prems"(3) [of "Suc i"] 0 by simp
    qed
    moreover have "a \<noteq> b" using "3.prems"(3) [of 0] 0 by simp
    ultimately show ?thesis using 0 by simp
  next
    case (Suc j)
    have "matched input target = j"
    proof (rule "3.IH")
      show "j \<le> length input" using "3.prems"(1) Suc by simp
      show "length input \<le> length target" using "3.prems"(2) by simp
      fix i assume "i < length input"
      then show "(input ! i = target ! i) = (i < j)"
        using "3.prems"(3) [of "Suc i"] Suc by simp
    qed
    moreover have "a = b" using "3.prems"(3) [of 0] Suc by simp
    ultimately show ?thesis using Suc by simp
  qed
qed

lemma key_release_accuracy_prefix:
  assumes "text \<noteq> []" "k \<le> length text" "length text \<le> length (get_sentence (display s))"
    and "\<And>i. i < length text \<Longrightarrow> (text ! i = get_sentence (display s) ! i) = (i < k)"
  shows "map_sum id accuracy_label (key_release text s) =
     Inr (''Accuracy: ''
            @ fmt2 (of_nat k / of_nat (length (get_sentence (display s))) * 100) @ ''%'')"
proof -
  have "matched text (get_sentence (display s)) = k"
    by (rule matched_prefix) (use assms in auto)
  moreover have "get_sentence (display s) \<noteq> []" using assms(1,3) by auto
  ultimately show ?thesis
    using assms(1) by (simp add: key_release_accuracy_label accuracy_text_def)
qed



lemma key_release_blank: "key_release [] blank = Inr blank"
proof -
  have "blank\<lparr>input_area := []\<rparr> = blank"
    by (simp add: blank_def running_def idle_def new_typing_area_def)
  moreover have "blank\<lparr>wpm_label := ''WPM: 0.00''\<rparr> = blank"
    by (simp add: blank_def running_def idle_def new_typing_area_def)
  ultimately show ?thesis
    by (simp add: key_release_def check_accuracy_eq enumerate_str_def blank_fields
        wpm_text_empty)
qed

subsection \<open>Restarting\<close>

lemma display_sentence_abc:
  "display_sentence 0 (display running) = Inr (display running)"
  by (simp add: display_sentence_def get_random_sentence_def running_def idle_def
      new_typing_area_def)

lemma restart_program_running: "restart_program 0 running = Inr restarted"
  by (simp add: restart_program_def reset_timer_def display_sentence_abc start_timer_eq
      wpm_text_empty show_int_1 restarted_def Let_def)
     (simp add: running_def idle_def new_typing_area_def)

lemma restarted_fields:
  "timer_running restarted" "time_elapsed restarted = 1" "input_area restarted = []"
  "pending restarted = [(0, 1000), (1, 1000)]" "timer_id restarted = Some 1"
  "next_after_id restarted = 2" "clock restarted = 0"
  by (simp_all add: restarted_def running_fields)

lemma fire_pending:
  "map_of (pending s) i = Some due \<Longrightarrow> timer_running s \<Longrightarrow>
   \<exists>s'. fire i s = Inr s' \<and> timer_running s' \<and> time_elapsed s' = time_elapsed s + 1
        \<and> input_area s' = input_area s
        \<and> pending s' = filter (\<lambda>p. fst p \<noteq> i) (pending s)
                          @ [(next_after_id s, max (clock s) due + 1000)]
        \<and> next_after_id s' = next_after_id s + 1 \<and> clock s' = max (clock s) due"
  by (simp add: fire_def update_timer_running)

lemma reset_timer_fields:
  "pending (reset_timer s) = pending s" "\<not> timer_running (reset_timer s)"
  "time_elapsed (reset_timer s) = 0" "timer_id (reset_timer s) = timer_id s"
  "next_after_id (reset_timer s) = next_after_id s" "clock (reset_timer s) = clock s"
  "input_area (reset_timer s) = input_area s"
  by (simp_all add: reset_timer_def)

lemma start_timer_stopped:
  "\<not> timer_running s \<Longrightarrow>
   \<exists>s'. start_timer s = Inr s' \<and> timer_running s' \<and> time_elapsed s' = time_elapsed s + 1
        \<and> input_area s' = input_area s
        \<and> pending s' = pending s @ [(next_after_id s, clock s + 1000)]
        \<and> next_after_id s' = next_after_id s + 1 \<and> clock s' = clock s"
  by (simp add: start_timer_eq)

subsection \<open>The sample sessions are sessions of the program\<close>

lemma idle_built:
  "map_sum id new_typing_area (new_sentence_display [''abc''] 0) = Inr idle"
  by (simp add: new_sentence_display_def display_sentence_def get_random_sentence_def idle_def)

lemma blank_built:
  "and_then (map_sum id new_typing_area (new_sentence_display [[]] 0)) start_timer = Inr blank"
  by (simp add: new_sentence_display_def display_sentence_def get_random_sentence_def
      and_then_def start_timer_eq wpm_text_empty show_int_1 new_typing_area_def)
     (simp add: blank_def running_def idle_def new_typing_area_def)

section \<open>The claims\<close>

text \<open>
  C10. Starting the timer of an idle session (not running, no time elapsed) runs the first
  tick at once: when \<open>start_timer\<close> returns, the elapsed time is 1, the label shows it, and
  the next tick is scheduled 1000 milliseconds later under the identifier kept in
  \<open>timer_id\<close>.
\<close>

theorem start_timer_first_tick:
  assumes "\<not> timer_running s" and "time_elapsed s = 0"
  shows "\<exists>s'. start_timer s = Inr s' \<and> timer_running s' \<and> time_elapsed s' = 1
           \<and> timer_label s' = ''Time Elapsed: 1s''
           \<and> timer_id s' = Some (next_after_id s)
           \<and> pending s' = pending s @ [(next_after_id s, clock s + 1000)]
           \<and> clock s' = clock s"
  using assms by (simp add: start_timer_eq show_int_1)

theorem start_timer_first_tick_witness:
  "\<not> timer_running idle \<and> time_elapsed idle = 0 \<and> start_timer idle = Inr running
     \<and> time_elapsed running = 1 \<and> timer_id running = Some 0 \<and> pending running = [(0, 1000)]"
proof -
  have idle: "\<not> timer_running idle" "time_elapsed idle = 0"
    by (simp_all add: idle_def new_typing_area_def)
  have run: "time_elapsed running = 1" "timer_id running = Some 0"
    "pending running = [(0, 1000)]"
    by (simp_all add: running_def)
  from start_timer_first_tick [OF idle] obtain s' where
    "start_timer idle = Inr s'" "time_elapsed s' = 1" by blast
  then have "start_timer idle = Inr running"
    by (simp add: start_timer_idle)
  with idle run show ?thesis by simp
qed

text \<open>
  C7. \<open>start_timer\<close> on a running session changes nothing, so two calls in a row start one
  tick cadence: the second call returns the object the first one left, with the one tick
  the first call scheduled.
\<close>

theorem start_timer_reentrant:
  "\<exists>s'. start_timer s = Inr s' \<and> timer_running s' \<and> start_timer s' = Inr s'
        \<and> (timer_running s \<longrightarrow> s' = s)
        \<and> (\<not> timer_running s \<longrightarrow> pending s' = pending s @ [(next_after_id s, clock s + 1000)])"
  by (simp add: start_timer_eq)

theorem start_timer_reentrant_witness:
  "timer_running running \<and> start_timer running = Inr running
     \<and> \<not> timer_running idle \<and> and_then (start_timer idle) start_timer = Inr running
     \<and> pending running = pending idle @ [(0, 1000)]"
proof -
  have r: "timer_running running" by (simp add: running_def)
  have i: "\<not> timer_running idle" "pending idle = []" "next_after_id idle = 0" "clock idle = 0"
    by (simp_all add: idle_def new_typing_area_def)
  from start_timer_reentrant [of running] r have 1: "start_timer running = Inr running"
    by auto
  from start_timer_reentrant [of idle] obtain s' where
    s': "start_timer idle = Inr s'" "start_timer s' = Inr s'" by blast
  have 2: "and_then (start_timer idle) start_timer = Inr running"
    using s' by (simp add: and_then_def start_timer_idle)
  show ?thesis using r i 1 2 by (simp add: running_def)
qed





text \<open>
  C1. A key release with \<open>k\<close> matching characters out of a sentence of length \<open>L\<close> is to set
  the accuracy to \<open>k / L * 100\<close>, and to 0 when the input is empty. For a non-empty input
  this is \<open>key_release_accuracy_prefix\<close> above. The score and the label are computed inside
  the body of the loop over the input, so an empty input computes and writes nothing: after
  typing \<open>a\<close> against \<open>abc\<close> and deleting it again the label still reads 33.33, and a key
  release in the empty entry of a fresh session leaves the initial text.
\<close>

theorem empty_input_keeps_accuracy_label:
  "map_sum id accuracy_label (key_release ''a'' running) = Inr ''Accuracy: 33.33%''
   \<and> map_sum id accuracy_label (and_then (key_release ''a'' running) (key_release []))
       = Inr ''Accuracy: 33.33%''
   \<and> map_sum id accuracy_label (key_release [] idle) = Inr ''Accuracy: 100%''"
proof -
  from key_release_total obtain s1 where s1: "key_release ''a'' running = Inr s1" by blast
  have l1: "accuracy_label s1 = ''Accuracy: 33.33%''"
    using key_release_fields(9) [OF s1] by (simp add: running_fields accuracy_text_1_3)
  have "map_sum id accuracy_label (key_release [] s1) = Inr ''Accuracy: 33.33%''"
    by (simp add: key_release_accuracy_label l1)
  moreover have "map_sum id accuracy_label (key_release [] idle) = Inr ''Accuracy: 100%''"
    by (simp add: key_release_accuracy_label idle_fields)
  ultimately show ?thesis using s1 l1 by (simp add: and_then_def)
qed



text \<open>
  C5, as stated, fails for the empty sentence: there the score is 0 by the guard of the
  division, so an input equal to the sentence (both empty) does not stop the session, and
  the next tick counts on.
\<close>

theorem full_match_empty_sentence_keeps_running:
  "input_area blank = get_sentence (display blank)
   \<and> key_release (get_sentence (display blank)) blank = Inr blank
   \<and> timer_running blank
   \<and> time_elapsed blank = 1
   \<and> map_sum id time_elapsed (ticks 1 blank) = Inr 2"
proof -
  have "map_sum id time_elapsed (update_timer blank) = Inr 2"
    by (simp add: update_timer_running blank_fields)
  then have "map_sum id time_elapsed (ticks 1 blank) = Inr 2"
    by (cases "update_timer blank") simp_all
  then show ?thesis
    by (simp add: blank_fields key_release_blank)
qed

text \<open>
  C5, amended. Once the input equals a non-empty sentence, the key release leaves the
  session stopped with the elapsed time unchanged, and no tick changes it afterwards:
  neither \<open>update_timer\<close> called any number of times, nor any sequence of pending callbacks
  that Tk still runs.
\<close>

theorem full_match_freezes_time:
  assumes "get_sentence (display s) \<noteq> []" and "text = get_sentence (display s)"
  shows "\<exists>s'. key_release text s = Inr s' \<and> \<not> timer_running s'
           \<and> time_elapsed s' = time_elapsed s
           \<and> (\<forall>n. ticks n s' = Inr s')
           \<and> (\<forall>ids. \<exists>s''. deliver ids s' = Inr s''
                  \<and> \<not> timer_running s'' \<and> time_elapsed s'' = time_elapsed s)"
proof -
  from key_release_total obtain s' where s': "key_release text s = Inr s'" by blast
  have "accuracy_score (matched text (get_sentence (display s))) (get_sentence (display s))
          = Inr 100"
    using assms by (simp add: accuracy_score_100 matched_self)
  then have stop: "\<not> timer_running s'"
    using key_release_fields(10) [OF s'] by simp
  have time: "time_elapsed s' = time_elapsed s"
    by (rule key_release_fields(1) [OF s'])
  have "\<forall>ids. \<exists>s''. deliver ids s' = Inr s''
           \<and> \<not> timer_running s'' \<and> time_elapsed s'' = time_elapsed s"
    using deliver_stopped [OF stop] time by simp
  with s' stop time show ?thesis
    by (simp add: ticks_stopped)
qed

theorem full_match_freezes_time_witness:
  "get_sentence (display running) \<noteq> []
   \<and> map_sum id timer_running (key_release ''abc'' running) = Inr False
   \<and> map_sum id time_elapsed (key_release ''abc'' running) = Inr 1
   \<and> map_sum id time_elapsed (and_then (key_release ''abc'' running) (ticks 3)) = Inr 1
   \<and> map_sum id time_elapsed (and_then (key_release ''abc'' running) (deliver [0, 0])) = Inr 1"
proof -
  have ne: "get_sentence (display running) \<noteq> []" and eq: "''abc'' = get_sentence (display running)"
    by (simp_all add: running_fields)
  from full_match_freezes_time [OF ne eq] obtain s' where
    s': "key_release ''abc'' running = Inr s'" "\<not> timer_running s'"
      "time_elapsed s' = time_elapsed running" "ticks 3 s' = Inr s'"
    and d: "\<exists>s''. deliver [0, 0] s' = Inr s'' \<and> time_elapsed s'' = time_elapsed running"
    by blast
  from d obtain s'' where "deliver [0, 0] s' = Inr s''" "time_elapsed s'' = time_elapsed running"
    by blast
  with s' ne show ?thesis
    by (simp add: and_then_def running_fields)
qed

text \<open>
  C4. Stopping, resetting and restarting are each to cancel the pending tick. \<open>stop_timer\<close>
  does; \<open>reset_timer\<close> clears the flag and the time and leaves the callback scheduled, and
  so does \<open>restart_program\<close>, which then starts the timer again: the restarted session has
  two ticks pending, and the old one, when it runs, counts a second (also when the session
  was reset and started again by a focus event).
\<close>

theorem reset_leaves_tick_pending:
  "pending running = [(0, 1000)]
   \<and> pending (stop_timer running) = []
   \<and> pending (reset_timer running) = [(0, 1000)]
   \<and> map_sum id pending (restart_program 0 running) = Inr [(0, 1000), (1, 1000)]
   \<and> map_sum id time_elapsed (restart_program 0 running) = Inr 1
   \<and> map_sum id time_elapsed (and_then (restart_program 0 running) (fire 0)) = Inr 2
   \<and> map_sum id time_elapsed (and_then (start_timer (reset_timer running)) (fire 0)) = Inr 2"
proof -
  have stop: "pending (stop_timer running) = []"
    by (simp add: stop_timer_eq running_fields)
  have "map_of (pending restarted) 0 = Some 1000"
    by (simp add: restarted_fields)
  from fire_pending [OF this restarted_fields(1)]
  have f: "map_sum id time_elapsed (fire 0 restarted) = Inr 2"
    by (auto simp: restarted_fields)
  from start_timer_stopped [OF reset_timer_fields(2), of running] obtain s1 where
    s1: "start_timer (reset_timer running) = Inr s1" "timer_running s1" "time_elapsed s1 = 1"
      "pending s1 = [(0, 1000), (1, 1000)]"
    by (auto simp: reset_timer_fields running_fields)
  have "map_of (pending s1) 0 = Some 1000"
    by (simp add: s1)
  from fire_pending [OF this s1(2)]
  have g: "map_sum id time_elapsed (fire 0 s1) = Inr 2"
    by (auto simp: s1)
  show ?thesis
    using stop f g s1(1)
    by (simp add: running_fields reset_timer_fields restart_program_running restarted_fields
        and_then_def)
qed

text \<open>
  C6. A restart is to behave as a fresh session that gets its first focus. Both show one
  elapsed second and an empty input; the fresh session has one tick pending and reads 2
  once the callbacks due after a second have run, the session restarted while running has
  two and reads 3.
\<close>

theorem restart_differs_from_fresh_start:
  "map_sum id time_elapsed (start_timer idle) = Inr 1
   \<and> map_sum id input_area (start_timer idle) = Inr []
   \<and> map_sum id pending (start_timer idle) = Inr [(0, 1000)]
   \<and> map_sum id time_elapsed (and_then (start_timer idle) (deliver [0])) = Inr 2
   \<and> map_sum id time_elapsed (restart_program 0 running) = Inr 1
   \<and> map_sum id input_area (restart_program 0 running) = Inr []
   \<and> map_sum id pending (restart_program 0 running) = Inr [(0, 1000), (1, 1000)]
   \<and> map_sum id time_elapsed (and_then (restart_program 0 running) (deliver [0, 1])) = Inr 3"
proof -
  have "map_of (pending running) 0 = Some 1000"
    by (simp add: running_fields)
  from fire_pending [OF this running_fields(2)]
  have a: "map_sum id time_elapsed (deliver [0] running) = Inr 2"
    by (auto simp: running_fields and_then_def)
  have "map_of (pending restarted) 0 = Some 1000"
    by (simp add: restarted_fields)
  from fire_pending [OF this restarted_fields(1)] obtain s1 where
    s1: "fire 0 restarted = Inr s1" "timer_running s1" "time_elapsed s1 = 2"
      "pending s1 = [(1, 1000), (2, 2000)]"
    by (auto simp: restarted_fields)
  have "map_of (pending s1) 1 = Some 1000"
    by (simp add: s1)
  from fire_pending [OF this s1(2)]
  have "map_sum id time_elapsed (fire 1 s1) = Inr 3"
    by (auto simp: s1)
  then have b: "map_sum id time_elapsed (deliver [0, 1] restarted) = Inr 3"
    by (cases "fire 1 s1") (simp_all add: s1(1) and_then_def)
  show ?thesis
    using a b
    by (simp add: start_timer_idle restart_program_running running_fields restarted_fields
        and_then_def)
qed




end
